theory Spec2Isabelle
  imports Complex_Main
begin

section \<open>RFM customer segmentation (src/src/analysis.py)\<close>

text \<open>
  The development embeds \<^verbatim>\<open>perform_rfm_analysis\<close> of \<^verbatim>\<open>src/src/analysis.py\<close>.
  A data frame is a list of rows; a cell that pandas would hold as NaN / NaT / None is
  \<open>None\<close>.  Customer ids are any linearly ordered type (pandas sorts the group keys).
  A Python exception is a value \<open>Inl e\<close>.

  Timestamps are integers counting nanoseconds since the epoch and amounts are rationals.
  Sums, differences and the interpolation of \<open>quantile_linear\<close> are exact and unbounded,
  where the program computes in int64 and binary64: there an int64 sum wraps, a binary64 sum or
  interpolation rounds, and a difference of more than about 292 years does not fit a
  \<^verbatim>\<open>Timedelta\<close>.  An edge of \<open>bin_edges\<close> can so differ from the program's in its last
  bit, and two edges that are equal here can be distinct there.  The runs that are evaluated
  below are on small numbers where the two agree; the statement on the order of the recency
  score takes the quantile computation as a parameter.
\<close>

subsection \<open>Data\<close>

record 'c transaction =
  transaction_id :: "nat option"
  customer_id :: "'c option"
  transaction_date :: "int option"
  total_amount :: "rat option"

text \<open>The frame built by \<^verbatim>\<open>groupby('customer_id').agg(...)\<close>, lines 30-38: one row per key.\<close>

record 'c rfm_row =
  index_customer_id :: 'c
  recency :: "int option"
  frequency :: nat
  monetary :: rat

text \<open>The frame that is returned: the aggregated columns and the five added ones.\<close>

record 'c profile =
  p_customer_id :: 'c
  p_recency :: "int option"
  p_frequency :: nat
  p_monetary :: rat
  r_score :: int
  f_score :: int
  m_score :: int
  segment :: string
  churn_risk :: string

text \<open>
  The exceptions that the pandas and Python calls of the function raise.  \<^verbatim>\<open>ValueError\<close>
  comes with one of three messages: "Bin labels must be one fewer than the number of bin
  edges", "labels must be unique if ordered=True" (both from \<^verbatim>\<open>pd.qcut\<close>) and "cannot
  convert float NaN to integer" (from \<^verbatim>\<open>int\<close>).  \<^verbatim>\<open>TypeError\<close> is raised by a
  comparison or an arithmetic operation on a cell that holds text.
\<close>

datatype error = ValueError | TypeError

subsection \<open>The pandas operations that the function calls\<close>

text \<open>The present cells of a column, in order (\<^verbatim>\<open>dropna\<close>, and the \<^verbatim>\<open>skipna\<close> of reductions).\<close>

fun dropna :: "'a option list \<Rightarrow> 'a list" where
  "dropna [] = []"
| "dropna (None # xs) = dropna xs"
| "dropna (Some x # xs) = x # dropna xs"

text \<open>\<^verbatim>\<open>Series.max()\<close>: the largest present cell, NaT when there is none.\<close>

definition series_max :: "int option list \<Rightarrow> int option" where
  "series_max xs = (if dropna xs = [] then None else Some (Max (set (dropna xs))))"

definition ns_per_day :: int where
  "ns_per_day = 86400000000000"

text \<open>\<^verbatim>\<open>Timedelta.days\<close>: whole days, rounded towards minus infinity.\<close>

definition days :: "int \<Rightarrow> int" where
  "days td = td div ns_per_day"

text \<open>The group keys of \<^verbatim>\<open>groupby\<close>: the distinct present keys, ascending.\<close>

definition group_keys :: "('c::linorder) transaction list \<Rightarrow> 'c list" where
  "group_keys df = sort (remdups (dropna (map customer_id df)))"

text \<open>
  \<^verbatim>\<open>Series.rank(method='first')\<close>: ascending ranks from 1, equal values ranked in the
  order in which they appear.
\<close>

definition rank_first :: "nat list \<Rightarrow> nat list" where
  "rank_first xs = map (\<lambda>i. 1 + length (filter (\<lambda>j. xs ! j < xs ! i \<or> (xs ! j = xs ! i \<and> j < i))
     [0..<length xs])) [0..<length xs]"

text \<open>
  \<^verbatim>\<open>Series.quantile\<close> with linear interpolation, at \<open>k / q\<close>, of an ascending non-empty
  list: the position is \<open>k * (n - 1) / q\<close>, \<open>lo\<close> its integer part.
\<close>

definition quantile_linear :: "rat list \<Rightarrow> nat \<Rightarrow> nat \<Rightarrow> rat" where
  "quantile_linear vs q k =
     (let p = k * (length vs - 1); lo = p div q; r = p mod q
      in if r = 0 then vs ! lo
         else vs ! lo + (vs ! (lo + 1) - vs ! lo) * (of_nat r / of_nat q))"

text \<open>\<^verbatim>\<open>algos.unique\<close>: the first occurrence of every value, in order.\<close>

definition unique :: "'a list \<Rightarrow> 'a list" where
  "unique xs = rev (remdups (rev xs))"

text \<open>
  \<^verbatim>\<open>bins.searchsorted(x, side='left')\<close> on the ascending edges: the number of edges
  strictly below \<open>x\<close>.
\<close>

definition searchsorted_left :: "rat list \<Rightarrow> rat \<Rightarrow> nat" where
  "searchsorted_left bins x = length (filter (\<lambda>b. b < x) bins)"

text \<open>
  One cell of \<^verbatim>\<open>_bins_to_cuts\<close> with \<^verbatim>\<open>right=True, include_lowest=True\<close>: the
  index of the bin, the lowest edge counted into the first bin, the label of that bin, and NaN
  for a missing cell or an index outside the bins.
\<close>

definition cut_value :: "rat list \<Rightarrow> int list \<Rightarrow> rat option \<Rightarrow> int option" where
  "cut_value bins labels v =
     (case v of
        None \<Rightarrow> None
      | Some y \<Rightarrow>
          (let ids = (if y = hd bins then 1 else searchsorted_left bins y)
           in if ids = length bins \<or> ids = 0 then None else Some (labels ! (ids - 1))))"

text \<open>
  \<^verbatim>\<open>pd.qcut(x, q, labels=labels, duplicates='drop')\<close>.  The edges \<open>bin_edges\<close> are the
  \<open>q + 1\<close> quantiles of the present cells; repeated edges are dropped; then the labels are checked
  against the edges that are left, and a list of labels that is not one shorter than the list
  of edges raises.  With no present cell every edge is NaN and one edge is left.
\<close>

definition bin_edges :: "rat option list \<Rightarrow> nat \<Rightarrow> rat list" where
  "bin_edges x q = map (quantile_linear (sort (dropna x)) q) [0..<q + 1]"

definition qcut :: "rat option list \<Rightarrow> nat \<Rightarrow> int list \<Rightarrow> error + int option list" where
  "qcut x q labels =
     (let vs = sort (dropna x) in
      if vs = [] then
        (if \<not> distinct labels then Inl ValueError
         else if length labels + 1 \<noteq> 1 then Inl ValueError
         else Inr (map (\<lambda>_. None) x))
      else
        (let bins = bin_edges x q;
             unique_bins = unique bins;
             bins = (if length unique_bins < length bins \<and> length bins \<noteq> 2
                     then unique_bins else bins)
         in if \<not> distinct labels then Inl ValueError
            else if length labels + 1 \<noteq> length bins then Inl ValueError
            else Inr (map (cut_value bins labels) x)))"

subsection \<open>perform\_rfm\_analysis\<close>

text \<open>Lines 28-38: the latest date of the frame, then one aggregated row per customer.\<close>

definition rfm_agg :: "('c::linorder) transaction list \<Rightarrow> 'c rfm_row list" where
  "rfm_agg df =
     (let max_date = series_max (map transaction_date df)
      in map (\<lambda>c.
           (let g = filter (\<lambda>t. customer_id t = Some c) df
            in \<lparr> index_customer_id = c,
                 recency = (case (max_date, series_max (map transaction_date g)) of
                              (Some m, Some d) \<Rightarrow> Some (days (m - d))
                            | _ \<Rightarrow> None),
                 frequency = length (dropna (map transaction_id g)),
                 monetary = sum_list (dropna (map total_amount g)) \<rparr>))
         (group_keys df))"

text \<open>Lines 46-57, on the three scores that \<^verbatim>\<open>int(...)\<close> has converted.\<close>

definition segment_customers :: "int \<Rightarrow> int \<Rightarrow> int \<Rightarrow> string" where
  "segment_customers r f m =
     (let score = r + f + m
      in if score \<ge> 13 then ''Champions''
         else if score \<ge> 10 then ''Loyal Customers''
         else if score \<ge> 7 then ''Potential Loyalists''
         else if score \<ge> 5 then ''At Risk''
         else ''Lost Customers'')"

text \<open>Lines 62-64.\<close>

definition churn_risk_of :: "int \<Rightarrow> string" where
  "churn_risk_of r = (if r \<le> 2 then ''High'' else if r \<le> 3 then ''Medium'' else ''Low'')"

text \<open>
  The two \<^verbatim>\<open>rfm.apply(..., axis=1)\<close> on one row: \<^verbatim>\<open>int\<close> of a NaN score raises,
  otherwise the row gets its segment and its churn risk.
\<close>

definition label_row ::
  "'c rfm_row \<times> int option \<times> int option \<times> int option \<Rightarrow> error + 'c profile" where
  "label_row x =
     (case x of
        (row, Some r, Some f, Some m) \<Rightarrow>
          Inr \<lparr> p_customer_id = index_customer_id row, p_recency = recency row,
                p_frequency = frequency row, p_monetary = monetary row,
                r_score = r, f_score = f, m_score = m,
                segment = segment_customers r f m, churn_risk = churn_risk_of r \<rparr>
      | _ \<Rightarrow> Inl ValueError)"

text \<open>Applying a row function down the frame: the first exception ends the run.\<close>

fun apply_rows :: "('a \<Rightarrow> error + 'b) \<Rightarrow> 'a list \<Rightarrow> error + 'b list" where
  "apply_rows f [] = Inr []"
| "apply_rows f (x # xs) =
     (case f x of
        Inl e \<Rightarrow> Inl e
      | Inr y \<Rightarrow> (case apply_rows f xs of Inl e \<Rightarrow> Inl e | Inr ys \<Rightarrow> Inr (y # ys)))"

text \<open>Lines 41-43: the three score columns, each of which can raise.\<close>

definition r_scores :: "'c rfm_row list \<Rightarrow> error + int option list" where
  "r_scores rfm = qcut (map (\<lambda>row. map_option of_int (recency row)) rfm) 5 [5, 4, 3, 2, 1]"

text \<open>The column \<^verbatim>\<open>rfm['frequency'].rank(method='first')\<close> that line 42 buckets.\<close>

definition frequency_rank :: "'c rfm_row list \<Rightarrow> rat option list" where
  "frequency_rank rfm = map (\<lambda>k. Some (of_nat k)) (rank_first (map frequency rfm))"

definition f_scores :: "'c rfm_row list \<Rightarrow> error + int option list" where
  "f_scores rfm = qcut (frequency_rank rfm) 5 [1, 2, 3, 4, 5]"

definition m_scores :: "'c rfm_row list \<Rightarrow> error + int option list" where
  "m_scores rfm = qcut (map (\<lambda>row. Some (monetary row)) rfm) 5 [1, 2, 3, 4, 5]"

text \<open>Lines 41-66 on the aggregated frame.\<close>

definition score_rfm :: "'c rfm_row list \<Rightarrow> error + 'c profile list" where
  "score_rfm rfm =
     (case r_scores rfm of
        Inl e \<Rightarrow> Inl e
      | Inr rs \<Rightarrow>
          (case f_scores rfm of
             Inl e \<Rightarrow> Inl e
           | Inr fs \<Rightarrow>
               (case m_scores rfm of
                  Inl e \<Rightarrow> Inl e
                | Inr ms \<Rightarrow> apply_rows label_row (zip rfm (zip rs (zip fs ms))))))"

definition perform_rfm_analysis :: "('c::linorder) transaction list \<Rightarrow> error + 'c profile list" where
  "perform_rfm_analysis df = score_rfm (rfm_agg df)"

subsection \<open>Columns that hold text\<close>

text \<open>
  A data frame is not typed: the date or the amount of a row can be text that is neither a
  timestamp nor a number (an unparseable field), and the column then has dtype
  \<^verbatim>\<open>object\<close>.  A cell is a value, missing, or such a text.
\<close>

datatype 'a cell = Value 'a | NaN | Text

record 'c raw_transaction =
  raw_transaction_id :: "nat option"
  raw_customer_id :: "'c option"
  raw_transaction_date :: "int cell"
  raw_total_amount :: "rat cell"

fun is_text :: "'a cell \<Rightarrow> bool" where
  "is_text Text = True"
| "is_text _ = False"

fun is_value :: "'a cell \<Rightarrow> bool" where
  "is_value (Value _) = True"
| "is_value _ = False"

fun parsed :: "'a cell \<Rightarrow> 'a option" where
  "parsed (Value v) = Some v"
| "parsed _ = None"

text \<open>The row as the typed frame of the sections above has it.\<close>

definition typed :: "'c raw_transaction \<Rightarrow> 'c transaction" where
  "typed t = \<lparr> transaction_id = raw_transaction_id t, customer_id = raw_customer_id t,
     transaction_date = parsed (raw_transaction_date t),
     total_amount = parsed (raw_total_amount t) \<rparr>"

text \<open>
  \<^verbatim>\<open>perform_rfm_analysis\<close> on such a frame, line by line.
  Line 28: the maximum of a column that holds a text and a timestamp compares the two and
  raises; the maximum of a column whose present cells are all text is a text.
  Line 31, once per group: subtracting from a text raises.
  Line 33: the sum of a group that holds a text and a number adds the two and raises; the sum of
  texts alone is a text.  A row without customer id is in no group, and its amount is in no sum.
  Lines 41 and 42 are as in the typed frame.
  Line 43: the quantiles of a monetary column that holds a text raise.
  With no text in the way the run is the run on the typed frame.
\<close>

definition perform_rfm_analysis_raw ::
  "('c::linorder) raw_transaction list \<Rightarrow> error + 'c profile list" where
  "perform_rfm_analysis_raw df =
     (let dates = map raw_transaction_date df;
          keys = group_keys (map typed df);
          amounts = (\<lambda>c. map raw_total_amount (filter (\<lambda>t. raw_customer_id t = Some c) df));
          rfm = rfm_agg (map typed df)
      in if list_ex is_text dates \<and> list_ex is_value dates then Inl TypeError
         else if list_ex is_text dates \<and> keys \<noteq> [] then Inl TypeError
         else if list_ex (\<lambda>c. list_ex is_text (amounts c) \<and> list_ex is_value (amounts c)) keys
           then Inl TypeError
         else (case r_scores rfm of
                 Inl e \<Rightarrow> Inl e
               | Inr rs \<Rightarrow>
                   (case f_scores rfm of
                      Inl e \<Rightarrow> Inl e
                    | Inr fs \<Rightarrow>
                        if list_ex (\<lambda>c. list_ex is_text (amounts c)) keys then Inl TypeError
                        else score_rfm rfm)))"

text \<open>Line 47: the sum of the three scores, by which the segment is chosen.\<close>

definition total_score :: "'c profile \<Rightarrow> int" where
  "total_score p = r_score p + f_score p + m_score p"

text \<open>\<^verbatim>\<open>rfm['segment'].value_counts()\<close> at one label (src/test\_ai\_insights.py, line 31).\<close>

definition segment_count :: "'c profile list \<Rightarrow> string \<Rightarrow> nat" where
  "segment_count ps s = length (filter (\<lambda>p. segment p = s) ps)"

definition segments :: "string list" where
  "segments = [''Champions'', ''Loyal Customers'', ''Potential Loyalists'', ''At Risk'',
     ''Lost Customers'']"

text \<open>
  The index of the bin of a value, written with the number \<open>l\<close> of values of the column of
  \<open>n\<close> values that are strictly smaller: the number of positions \<open>k * (n - 1) / q\<close> below
  \<open>l\<close>, and 1 for the smallest value.  It is shown below to be the index that
  \<open>cut_value\<close> computes on the edges of the column.
\<close>

definition bucket :: "nat \<Rightarrow> nat \<Rightarrow> nat \<Rightarrow> nat" where
  "bucket n q l = (if l = 0 then 1 else length (filter (\<lambda>k. k * (n - 1) < q * l) [0..<q + 1]))"

text \<open>
  The input that the data model asks for: at least one row, and on every row the transaction
  id, the customer id, the date and the amount are present.
\<close>

definition valid_table :: "'c transaction list \<Rightarrow> bool" where
  "valid_table df \<longleftrightarrow> df \<noteq> [] \<and>
     (\<forall>t\<in>set df. transaction_id t \<noteq> None \<and> customer_id t \<noteq> None \<and>
        transaction_date t \<noteq> None \<and> total_amount t \<noteq> None)"

subsection \<open>The run with the quantile computation as a parameter\<close>

text \<open>
  \<^verbatim>\<open>Series.quantile\<close> evaluates the linear interpolation in binary64, at the quantiles
  \<^verbatim>\<open>np.linspace(0, 1, q + 1)\<close>; \<open>quantile_linear\<close> evaluates it exactly, and the two can
  differ in the last bit of an edge.  Here the computation is a parameter \<open>E\<close>: \<open>E vs q k\<close>
  is the \<open>k\<close>-th of the \<open>q + 1\<close> edges of the ascending present cells \<open>vs\<close>.  The
  definitions repeat \<open>bin_edges\<close>, \<open>qcut\<close>, the three score lines and \<open>score_rfm\<close> with
  \<open>E\<close> in the place of \<open>quantile_linear\<close>.
\<close>

definition bin_edges_with ::
  "(rat list \<Rightarrow> nat \<Rightarrow> nat \<Rightarrow> rat) \<Rightarrow> rat option list \<Rightarrow> nat \<Rightarrow> rat list" where
  "bin_edges_with E x q = map (E (sort (dropna x)) q) [0..<q + 1]"

definition qcut_with ::
  "(rat list \<Rightarrow> nat \<Rightarrow> nat \<Rightarrow> rat) \<Rightarrow> rat option list \<Rightarrow> nat \<Rightarrow> int list
     \<Rightarrow> error + int option list" where
  "qcut_with E x q labels =
     (let vs = sort (dropna x) in
      if vs = [] then
        (if \<not> distinct labels then Inl ValueError
         else if length labels + 1 \<noteq> 1 then Inl ValueError
         else Inr (map (\<lambda>_. None) x))
      else
        (let bins = bin_edges_with E x q;
             unique_bins = unique bins;
             bins = (if length unique_bins < length bins \<and> length bins \<noteq> 2
                     then unique_bins else bins)
         in if \<not> distinct labels then Inl ValueError
            else if length labels + 1 \<noteq> length bins then Inl ValueError
            else Inr (map (cut_value bins labels) x)))"

definition r_scores_with ::
  "(rat list \<Rightarrow> nat \<Rightarrow> nat \<Rightarrow> rat) \<Rightarrow> 'c rfm_row list \<Rightarrow> error + int option list" where
  "r_scores_with E rfm =
     qcut_with E (map (\<lambda>row. map_option of_int (recency row)) rfm) 5 [5, 4, 3, 2, 1]"

definition f_scores_with ::
  "(rat list \<Rightarrow> nat \<Rightarrow> nat \<Rightarrow> rat) \<Rightarrow> 'c rfm_row list \<Rightarrow> error + int option list" where
  "f_scores_with E rfm = qcut_with E (frequency_rank rfm) 5 [1, 2, 3, 4, 5]"

definition m_scores_with ::
  "(rat list \<Rightarrow> nat \<Rightarrow> nat \<Rightarrow> rat) \<Rightarrow> 'c rfm_row list \<Rightarrow> error + int option list" where
  "m_scores_with E rfm = qcut_with E (map (\<lambda>row. Some (monetary row)) rfm) 5 [1, 2, 3, 4, 5]"

definition score_rfm_with ::
  "(rat list \<Rightarrow> nat \<Rightarrow> nat \<Rightarrow> rat) \<Rightarrow> 'c rfm_row list \<Rightarrow> error + 'c profile list" where
  "score_rfm_with E rfm =
     (case r_scores_with E rfm of
        Inl e \<Rightarrow> Inl e
      | Inr rs \<Rightarrow>
          (case f_scores_with E rfm of
             Inl e \<Rightarrow> Inl e
           | Inr fs \<Rightarrow>
               (case m_scores_with E rfm of
                  Inl e \<Rightarrow> Inl e
                | Inr ms \<Rightarrow> apply_rows label_row (zip rfm (zip rs (zip fs ms))))))"

text \<open>
  What the interpolation does on an ascending column \<open>vs\<close> of whole numbers, whether it is
  evaluated exactly or in binary64: with \<open>lo\<close> the integer part of the position
  \<open>k * (n - 1) / 5\<close>, the edge lies in the cell from \<open>vs ! lo\<close> to \<open>vs ! (lo + 1)\<close>, below
  the upper end when the two ends differ; at the last position it is the last value; and the
  lowest edge is the least value.  (In binary64 the quantiles of \<^verbatim>\<open>np.linspace\<close> are not
  below \<open>k / 5\<close>, so the integer part of the position is the exact one, and the interpolation
  between two whole numbers stays between them.)
\<close>

definition within_cell :: "(rat list \<Rightarrow> nat \<Rightarrow> nat \<Rightarrow> rat) \<Rightarrow> bool" where
  "within_cell E \<longleftrightarrow>
     (\<forall>vs k. sorted vs \<longrightarrow> vs \<noteq> [] \<longrightarrow> set vs \<subseteq> \<int> \<longrightarrow> k \<le> 5 \<longrightarrow>
        (let lo = (k * (length vs - 1)) div 5
         in E vs 5 0 = vs ! 0 \<and> vs ! lo \<le> E vs 5 k \<and>
            (if lo + 1 < length vs
             then E vs 5 k \<le> vs ! (lo + 1) \<and> (vs ! lo < vs ! (lo + 1) \<longrightarrow> E vs 5 k < vs ! (lo + 1))
             else E vs 5 k = vs ! lo)))"

subsection \<open>Tables used as examples\<close>

text \<open>A complete row: transaction id, customer, day of the purchase (at midnight), amount.\<close>

definition purchase :: "nat \<Rightarrow> nat \<Rightarrow> int \<Rightarrow> rat \<Rightarrow> nat transaction" where
  "purchase i c d a = \<lparr> transaction_id = Some i, customer_id = Some c,
     transaction_date = Some (d * ns_per_day), total_amount = Some a \<rparr>"

text \<open>Five customers, one in each segment.\<close>

definition five_customers :: "nat transaction list" where
  "five_customers = [purchase 1 1 1 10, purchase 2 2 2 20, purchase 3 3 3 30, purchase 4 4 4 40,
     purchase 5 5 5 25, purchase 6 5 6 25]"

definition five_profiles :: "nat profile list" where
  "five_profiles =
    [\<lparr> p_customer_id = 1, p_recency = Some 5, p_frequency = 1, p_monetary = 10,
       r_score = 1, f_score = 1, m_score = 1, segment = ''Lost Customers'', churn_risk = ''High'' \<rparr>,
     \<lparr> p_customer_id = 2, p_recency = Some 4, p_frequency = 1, p_monetary = 20,
       r_score = 2, f_score = 2, m_score = 2, segment = ''At Risk'', churn_risk = ''High'' \<rparr>,
     \<lparr> p_customer_id = 3, p_recency = Some 3, p_frequency = 1, p_monetary = 30,
       r_score = 3, f_score = 3, m_score = 3, segment = ''Potential Loyalists'',
       churn_risk = ''Medium'' \<rparr>,
     \<lparr> p_customer_id = 4, p_recency = Some 2, p_frequency = 1, p_monetary = 40,
       r_score = 4, f_score = 4, m_score = 4, segment = ''Loyal Customers'', churn_risk = ''Low'' \<rparr>,
     \<lparr> p_customer_id = 5, p_recency = Some 0, p_frequency = 2, p_monetary = 50,
       r_score = 5, f_score = 5, m_score = 5, segment = ''Champions'', churn_risk = ''Low'' \<rparr>]"

text \<open>One customer with one purchase.\<close>

definition single_customer :: "nat transaction list" where
  "single_customer = [purchase 1 1 10 10]"

text \<open>Two customers who bought on different days and spent the same amount.\<close>

definition equal_monetary :: "nat transaction list" where
  "equal_monetary = [purchase 1 1 10 10, purchase 2 2 5 10]"

text \<open>
  Five customers with one purchase each on the same day, of 10, 20, 30, 40 and 50: equal
  recency, equal frequency.
\<close>

definition monetary_10_to_50 :: "nat transaction list" where
  "monetary_10_to_50 = [purchase 1 1 10 10, purchase 2 2 10 20, purchase 3 3 10 30,
     purchase 4 4 10 40, purchase 5 5 10 50]"

text \<open>Two customers who bought on the same day.\<close>

definition same_day_customers :: "nat transaction list" where
  "same_day_customers = [purchase 1 1 10 10, purchase 2 2 10 20]"

text \<open>A complete row of a frame that may hold text.\<close>

definition raw_purchase :: "nat \<Rightarrow> nat \<Rightarrow> int \<Rightarrow> rat \<Rightarrow> nat raw_transaction" where
  "raw_purchase i c d a = \<lparr> raw_transaction_id = Some i, raw_customer_id = Some c,
     raw_transaction_date = Value (d * ns_per_day), raw_total_amount = Value a \<rparr>"

text \<open>
  Two customers with a complete row each, and four incomplete rows: one without amount, one
  without customer id, one without date, and one without customer id whose amount is text.
\<close>

definition incomplete_rows :: "nat raw_transaction list" where
  "incomplete_rows = [raw_purchase 1 1 10 10, raw_purchase 2 2 5 20,
     \<lparr> raw_transaction_id = Some 3, raw_customer_id = Some 1,
       raw_transaction_date = Value 0, raw_total_amount = NaN \<rparr>,
     \<lparr> raw_transaction_id = Some 4, raw_customer_id = None,
       raw_transaction_date = Value (3 * ns_per_day), raw_total_amount = Value 7 \<rparr>,
     \<lparr> raw_transaction_id = Some 5, raw_customer_id = Some 2,
       raw_transaction_date = NaN, raw_total_amount = Value 5 \<rparr>,
     \<lparr> raw_transaction_id = Some 6, raw_customer_id = None,
       raw_transaction_date = Value (4 * ns_per_day), raw_total_amount = Text \<rparr>]"

definition incomplete_profiles :: "nat profile list" where
  "incomplete_profiles =
    [\<lparr> p_customer_id = 1, p_recency = Some 0, p_frequency = 2, p_monetary = 10,
       r_score = 5, f_score = 1, m_score = 1, segment = ''Potential Loyalists'',
       churn_risk = ''Low'' \<rparr>,
     \<lparr> p_customer_id = 2, p_recency = Some 5, p_frequency = 2, p_monetary = 25,
       r_score = 1, f_score = 5, m_score = 5, segment = ''Loyal Customers'',
       churn_risk = ''High'' \<rparr>]"

text \<open>Two customers; the date of the second is text.\<close>

definition text_date :: "nat raw_transaction list" where
  "text_date = [raw_purchase 1 1 10 10,
     \<lparr> raw_transaction_id = Some 2, raw_customer_id = Some 2,
       raw_transaction_date = Text, raw_total_amount = Value 5 \<rparr>]"

text \<open>Two customers; the amount of the second is text.\<close>

definition text_amount :: "nat raw_transaction list" where
  "text_amount = [raw_purchase 1 1 10 10,
     \<lparr> raw_transaction_id = Some 2, raw_customer_id = Some 2,
       raw_transaction_date = Value (5 * ns_per_day), raw_total_amount = Text \<rparr>]"

text \<open>Two customers; the only row of the second has no date.\<close>

definition missing_date :: "nat raw_transaction list" where
  "missing_date = [raw_purchase 1 1 10 10,
     \<lparr> raw_transaction_id = Some 2, raw_customer_id = Some 2,
       raw_transaction_date = NaN, raw_total_amount = Value 5 \<rparr>]"

text \<open>Two customers with complete rows, different days and the same amount.\<close>

definition raw_equal_monetary :: "nat raw_transaction list" where
  "raw_equal_monetary = [raw_purchase 1 1 10 10, raw_purchase 2 2 5 10]"

text \<open>The five customers again, the purchase of customer 3 made on day 5 instead of day 3.\<close>

definition five_customers_later :: "nat transaction list" where
  "five_customers_later = [purchase 1 1 1 10, purchase 2 2 2 20, purchase 3 3 5 30,
     purchase 4 4 4 40, purchase 5 5 5 25, purchase 6 5 6 25]"

definition later_profiles :: "nat profile list" where
  "later_profiles =
    [\<lparr> p_customer_id = 1, p_recency = Some 5, p_frequency = 1, p_monetary = 10,
       r_score = 1, f_score = 1, m_score = 1, segment = ''Lost Customers'', churn_risk = ''High'' \<rparr>,
     \<lparr> p_customer_id = 2, p_recency = Some 4, p_frequency = 1, p_monetary = 20,
       r_score = 2, f_score = 2, m_score = 2, segment = ''At Risk'', churn_risk = ''High'' \<rparr>,
     \<lparr> p_customer_id = 3, p_recency = Some 1, p_frequency = 1, p_monetary = 30,
       r_score = 4, f_score = 3, m_score = 3, segment = ''Loyal Customers'', churn_risk = ''Low'' \<rparr>,
     \<lparr> p_customer_id = 4, p_recency = Some 2, p_frequency = 1, p_monetary = 40,
       r_score = 3, f_score = 4, m_score = 4, segment = ''Loyal Customers'',
       churn_risk = ''Medium'' \<rparr>,
     \<lparr> p_customer_id = 5, p_recency = Some 0, p_frequency = 2, p_monetary = 50,
       r_score = 5, f_score = 5, m_score = 5, segment = ''Champions'', churn_risk = ''Low'' \<rparr>]"

section \<open>Properties\<close>

subsection \<open>What a run that returns has computed\<close>

lemma apply_rows_Inr:
  "apply_rows f xs = Inr ys \<Longrightarrow> list_all2 (\<lambda>x y. f x = Inr y) xs ys"
  by (induction xs arbitrary: ys) (auto split: sum.splits)

lemma cut_value_label:
  assumes "length labels + 1 = length bins" and "cut_value bins labels v = Some s"
  shows "s \<in> set labels"
proof -
  from assms(2) obtain y where v: "v = Some y" by (cases v) (auto simp: cut_value_def)
  define ids where "ids = (if y = hd bins then 1 else searchsorted_left bins y)"
  have le: "ids \<le> length bins"
    using assms(1) by (auto simp: ids_def searchsorted_left_def)
  from assms(2) v have ne: "ids \<noteq> length bins" "ids \<noteq> 0" and s: "s = labels ! (ids - 1)"
    by (auto simp: cut_value_def ids_def Let_def split: if_splits)
  from le ne assms(1) have "ids - 1 < length labels" by arith
  with s show ?thesis by simp
qed

lemma qcut_Inr:
  assumes "qcut x q labels = Inr ss"
  shows "length ss = length x"
    and "\<And>i s. i < length x \<Longrightarrow> ss ! i = Some s \<Longrightarrow> s \<in> set labels"
    and "\<And>i. i < length x \<Longrightarrow> x ! i = None \<Longrightarrow> ss ! i = None"
proof -
  show "length ss = length x"
    using assms by (auto simp: qcut_def Let_def split: if_splits)
  have form: "ss = map (\<lambda>_. None) x \<or>
      (\<exists>bins. length labels + 1 = length bins \<and> ss = map (cut_value bins labels) x)"
    using assms by (auto simp: qcut_def Let_def split: if_splits)
  show "s \<in> set labels" if "i < length x" and "ss ! i = Some s" for i s
    using form that by (auto intro: cut_value_label)
  show "ss ! i = None" if "i < length x" and "x ! i = None" for i
    using form that by (auto simp: cut_value_def)
qed

lemma label_row_Inr:
  assumes "label_row (row, r, f, m) = Inr p"
  shows "\<exists>r' f' m'. r = Some r' \<and> f = Some f' \<and> m = Some m' \<and>
     p = \<lparr> p_customer_id = index_customer_id row, p_recency = recency row,
           p_frequency = frequency row, p_monetary = monetary row,
           r_score = r', f_score = f', m_score = m',
           segment = segment_customers r' f' m', churn_risk = churn_risk_of r' \<rparr>"
  using assms by (auto simp: label_row_def split: option.splits)

lemma score_rfm_Inr:
  assumes "score_rfm rfm = Inr ps"
  shows "\<exists>rs fs ms. r_scores rfm = Inr rs \<and> f_scores rfm = Inr fs \<and> m_scores rfm = Inr ms \<and>
     length rs = length rfm \<and> length fs = length rfm \<and> length ms = length rfm \<and>
     length ps = length rfm \<and>
     (\<forall>i<length rfm. label_row (rfm ! i, rs ! i, fs ! i, ms ! i) = Inr (ps ! i))"
proof -
  from assms obtain rs fs ms where r: "r_scores rfm = Inr rs" and f: "f_scores rfm = Inr fs"
    and m: "m_scores rfm = Inr ms"
    and a: "apply_rows label_row (zip rfm (zip rs (zip fs ms))) = Inr ps"
    by (auto simp: score_rfm_def split: sum.splits)
  have lr: "length rs = length rfm"
    using r qcut_Inr(1) by (fastforce simp: r_scores_def)
  have lf: "length fs = length rfm"
    using f qcut_Inr(1) by (fastforce simp: f_scores_def frequency_rank_def rank_first_def)
  have lm: "length ms = length rfm"
    using m qcut_Inr(1) by (fastforce simp: m_scores_def)
  from a have l2: "list_all2 (\<lambda>x y. label_row x = Inr y) (zip rfm (zip rs (zip fs ms))) ps"
    by (rule apply_rows_Inr)
  then have lp: "length ps = length rfm"
    using lr lf lm by (auto dest: list_all2_lengthD)
  have "\<forall>i<length rfm. label_row (rfm ! i, rs ! i, fs ! i, ms ! i) = Inr (ps ! i)"
  proof (intro allI impI)
    fix i assume i: "i < length rfm"
    then have "label_row (zip rfm (zip rs (zip fs ms)) ! i) = Inr (ps ! i)"
      using l2 lr lf lm by (auto dest: list_all2_nthD)
    then show "label_row (rfm ! i, rs ! i, fs ! i, ms ! i) = Inr (ps ! i)"
      using i lr lf lm by simp
  qed
  with r f m lr lf lm lp show ?thesis by blast
qed

text \<open>Every returned profile carries three labels of the score lists and the two derived labels.\<close>

lemma score_rfm_profile:
  assumes "score_rfm rfm = Inr ps" and "p \<in> set ps"
  shows "r_score p \<in> {1..5} \<and> f_score p \<in> {1..5} \<and> m_score p \<in> {1..5} \<and>
         segment p = segment_customers (r_score p) (f_score p) (m_score p) \<and>
         churn_risk p = churn_risk_of (r_score p)"
proof -
  from score_rfm_Inr[OF assms(1)] obtain rs fs ms where
    r: "r_scores rfm = Inr rs" and f: "f_scores rfm = Inr fs" and m: "m_scores rfm = Inr ms"
    and len: "length rs = length rfm" "length fs = length rfm" "length ms = length rfm"
      "length ps = length rfm"
    and lab: "\<forall>i<length rfm. label_row (rfm ! i, rs ! i, fs ! i, ms ! i) = Inr (ps ! i)"
    by blast
  from assms(2) obtain i where i: "i < length ps" and p: "p = ps ! i"
    by (auto simp: in_set_conv_nth)
  from lab i len have "label_row (rfm ! i, rs ! i, fs ! i, ms ! i) = Inr p"
    using p by simp
  from label_row_Inr[OF this] obtain r' f' m' where
    rs: "rs ! i = Some r'" and fs: "fs ! i = Some f'" and ms: "ms ! i = Some m'"
    and pe: "p = \<lparr> p_customer_id = index_customer_id (rfm ! i), p_recency = recency (rfm ! i),
           p_frequency = frequency (rfm ! i), p_monetary = monetary (rfm ! i),
           r_score = r', f_score = f', m_score = m',
           segment = segment_customers r' f' m', churn_risk = churn_risk_of r' \<rparr>"
    by blast
  have "r' \<in> set [5, 4, 3, 2, 1]"
    using qcut_Inr(2)[OF r[unfolded r_scores_def] _ rs] i len by simp
  moreover have "f' \<in> set [1, 2, 3, 4, 5]"
    using qcut_Inr(2)[OF f[unfolded f_scores_def] _ fs] i len
    by (simp add: frequency_rank_def rank_first_def)
  moreover have "m' \<in> set [1, 2, 3, 4, 5]"
    using qcut_Inr(2)[OF m[unfolded m_scores_def] _ ms] i len by simp
  ultimately show ?thesis using pe by auto
qed

lemma five_customers_run: "perform_rfm_analysis five_customers = Inr five_profiles"
  by code_simp

subsection \<open>Segments and churn risk\<close>

text \<open>
  C2.  In every profile that \<open>perform_rfm_analysis\<close> returns, the total score is the sum of
  the three scores, and the segment is Champions exactly when the total is at least 13, Loyal
  Customers exactly when it is 10 to 12, Potential Loyalists exactly when it is 7 to 9, At Risk
  exactly when it is 5 or 6, and Lost Customers exactly when it is below 5.
\<close>

theorem segment_by_total_score:
  assumes "perform_rfm_analysis df = Inr ps" and "p \<in> set ps"
  shows "total_score p = r_score p + f_score p + m_score p \<and>
     (segment p = ''Champions'' \<longleftrightarrow> 13 \<le> total_score p) \<and>
     (segment p = ''Loyal Customers'' \<longleftrightarrow> 10 \<le> total_score p \<and> total_score p < 13) \<and>
     (segment p = ''Potential Loyalists'' \<longleftrightarrow> 7 \<le> total_score p \<and> total_score p < 10) \<and>
     (segment p = ''At Risk'' \<longleftrightarrow> 5 \<le> total_score p \<and> total_score p < 7) \<and>
     (segment p = ''Lost Customers'' \<longleftrightarrow> total_score p < 5)"
proof -
  from assms have "segment p = segment_customers (r_score p) (f_score p) (m_score p)"
    using score_rfm_profile by (auto simp: perform_rfm_analysis_def)
  then show ?thesis
    by (simp add: segment_customers_def total_score_def Let_def)
qed

theorem segment_by_total_score_witness:
  "perform_rfm_analysis five_customers = Inr five_profiles \<and>
   five_profiles ! 3 \<in> set five_profiles \<and>
   total_score (five_profiles ! 3) = 12 \<and> segment (five_profiles ! 3) = ''Loyal Customers'' \<and>
   (segment (five_profiles ! 3) = ''Loyal Customers'' \<longleftrightarrow>
      10 \<le> total_score (five_profiles ! 3) \<and> total_score (five_profiles ! 3) < 13)"
proof -
  have m: "five_profiles ! 3 \<in> set five_profiles"
    by (simp add: five_profiles_def)
  have v: "total_score (five_profiles ! 3) = 12" "segment (five_profiles ! 3) = ''Loyal Customers''"
    by (simp_all add: five_profiles_def total_score_def)
  from segment_by_total_score[OF five_customers_run m] five_customers_run m v
  show ?thesis by blast
qed

text \<open>
  C5.  In every profile that \<open>perform_rfm_analysis\<close> returns, each of the three scores is an
  integer from 1 to 5 and the total score is from 3 to 15.
\<close>

theorem scores_in_range:
  assumes "perform_rfm_analysis df = Inr ps" and "p \<in> set ps"
  shows "1 \<le> r_score p \<and> r_score p \<le> 5 \<and> 1 \<le> f_score p \<and> f_score p \<le> 5 \<and>
     1 \<le> m_score p \<and> m_score p \<le> 5 \<and> 3 \<le> total_score p \<and> total_score p \<le> 15"
proof -
  from assms have "r_score p \<in> {1..5} \<and> f_score p \<in> {1..5} \<and> m_score p \<in> {1..5}"
    using score_rfm_profile by (auto simp: perform_rfm_analysis_def)
  then show ?thesis by (simp add: total_score_def)
qed

theorem scores_in_range_witness:
  "perform_rfm_analysis five_customers = Inr five_profiles \<and>
   five_profiles ! 0 \<in> set five_profiles \<and>
   1 \<le> r_score (five_profiles ! 0) \<and> r_score (five_profiles ! 0) \<le> 5 \<and>
   1 \<le> f_score (five_profiles ! 0) \<and> f_score (five_profiles ! 0) \<le> 5 \<and>
   1 \<le> m_score (five_profiles ! 0) \<and> m_score (five_profiles ! 0) \<le> 5 \<and>
   3 \<le> total_score (five_profiles ! 0) \<and> total_score (five_profiles ! 0) \<le> 15"
proof -
  have m: "five_profiles ! 0 \<in> set five_profiles"
    by (simp add: five_profiles_def)
  from scores_in_range[OF five_customers_run m] five_customers_run m
  show ?thesis by blast
qed

text \<open>
  C10.  A returned profile in segment Champions never has churn risk High: its churn risk is
  Medium or Low.
\<close>

theorem champions_not_high_risk:
  assumes "perform_rfm_analysis df = Inr ps" and "p \<in> set ps" and "segment p = ''Champions''"
  shows "churn_risk p \<noteq> ''High'' \<and> (churn_risk p = ''Medium'' \<or> churn_risk p = ''Low'')"
proof -
  from assms(1,2) have range: "f_score p \<le> 5" "m_score p \<le> 5"
    and seg: "segment p = segment_customers (r_score p) (f_score p) (m_score p)"
    and churn: "churn_risk p = churn_risk_of (r_score p)"
    using score_rfm_profile by (auto simp: perform_rfm_analysis_def)
  from seg assms(3) have "13 \<le> r_score p + f_score p + m_score p"
    by (simp add: segment_customers_def Let_def split: if_splits)
  with range have "3 \<le> r_score p" by arith
  with churn show ?thesis by (simp add: churn_risk_of_def)
qed

theorem champions_not_high_risk_witness:
  "perform_rfm_analysis five_customers = Inr five_profiles \<and>
   five_profiles ! 4 \<in> set five_profiles \<and> segment (five_profiles ! 4) = ''Champions'' \<and>
   churn_risk (five_profiles ! 4) \<noteq> ''High'' \<and>
   (churn_risk (five_profiles ! 4) = ''Medium'' \<or> churn_risk (five_profiles ! 4) = ''Low'')"
proof -
  have m: "five_profiles ! 4 \<in> set five_profiles"
    by (simp add: five_profiles_def)
  have s: "segment (five_profiles ! 4) = ''Champions''"
    by (simp add: five_profiles_def)
  from champions_not_high_risk[OF five_customers_run m s] five_customers_run m s
  show ?thesis by blast
qed

subsection \<open>Runs that raise\<close>

lemma set_dropna: "set (dropna xs) = {x. Some x \<in> set xs}"
  by (induction xs rule: dropna.induct) auto

lemma dropna_all_None: "(\<forall>x\<in>set xs. x = None) \<Longrightarrow> dropna xs = []"
  by (induction xs rule: dropna.induct) auto

lemma length_rfm_agg: "length (rfm_agg df) = length (group_keys df)"
  by (simp add: rfm_agg_def Let_def)

lemma set_group_keys: "set (group_keys df) = {c. \<exists>t\<in>set df. customer_id t = Some c}"
  by (auto simp: group_keys_def set_dropna image_iff) (metis)+

lemma qcut_Inl: "qcut x q labels = Inl e \<Longrightarrow> e = ValueError"
  by (auto simp: qcut_def Let_def split: if_splits)

lemma label_row_Inl: "label_row x = Inl e \<Longrightarrow> e = ValueError"
  by (auto simp: label_row_def split: prod.splits option.splits)

lemma apply_rows_Inl: "apply_rows f xs = Inl e \<Longrightarrow> \<exists>x\<in>set xs. f x = Inl e"
  by (induction xs) (auto split: sum.splits)

lemma score_rfm_Inl: "score_rfm rfm = Inl e \<Longrightarrow> e = ValueError"
  by (auto simp: score_rfm_def r_scores_def f_scores_def m_scores_def
      split: sum.splits dest: qcut_Inl label_row_Inl dest!: apply_rows_Inl)

lemma score_rfm_no_recency:
  assumes "i < length rfm" and "recency (rfm ! i) = None"
  shows "score_rfm rfm = Inl ValueError"
proof (cases "score_rfm rfm")
  case (Inl e)
  then show ?thesis using score_rfm_Inl by blast
next
  case (Inr ps)
  from score_rfm_Inr[OF Inr] obtain rs fs ms where
    r: "r_scores rfm = Inr rs"
    and lab: "\<forall>i<length rfm. label_row (rfm ! i, rs ! i, fs ! i, ms ! i) = Inr (ps ! i)"
    by blast
  from lab assms(1) have "label_row (rfm ! i, rs ! i, fs ! i, ms ! i) = Inr (ps ! i)"
    by simp
  from label_row_Inr[OF this] obtain r' where "rs ! i = Some r'"
    by blast
  moreover have "rs ! i = None"
    using qcut_Inr(3)[OF r[unfolded r_scores_def], of i] assms by simp
  ultimately show ?thesis by simp
qed

lemma customer_without_date:
  assumes "t \<in> set df" and "customer_id t = Some c"
    and "\<forall>u\<in>set df. customer_id u = Some c \<longrightarrow> transaction_date u = None"
  shows "perform_rfm_analysis df = Inl ValueError"
proof -
  from assms(1,2) have "c \<in> set (group_keys df)"
    by (auto simp: set_group_keys)
  then obtain i where i: "i < length (group_keys df)" and c: "group_keys df ! i = c"
    by (auto simp: in_set_conv_nth)
  have "dropna (map transaction_date (filter (\<lambda>t. customer_id t = Some c) df)) = []"
    using assms(3) by (intro dropna_all_None) auto
  then have "series_max (map transaction_date (filter (\<lambda>t. customer_id t = Some c) df)) = None"
    by (simp add: series_max_def)
  then have "recency (rfm_agg df ! i) = None"
    using i c by (simp add: rfm_agg_def Let_def split: option.splits)
  with i show ?thesis
    unfolding perform_rfm_analysis_def
    by (intro score_rfm_no_recency[of i]) (simp_all add: length_rfm_agg)
qed

text \<open>
  C1 (evaluation).  The table with one purchase of one customer is aggregated to the profile
  with recency 0, frequency 1 and monetary 10, and then the run raises: the five quantile edges
  of the recency column coincide.
\<close>

theorem single_customer_raises:
  "rfm_agg single_customer =
     [\<lparr> index_customer_id = 1, recency = Some 0, frequency = 1, monetary = 10 \<rparr>] \<and>
   perform_rfm_analysis single_customer = Inl ValueError"
  by code_simp

text \<open>
  C3 (evaluation).  Two customers with different recency and the same monetary value: the
  recency and frequency columns are scored, the monetary column raises, and so does the run.
\<close>

theorem equal_monetary_raises:
  "r_scores (rfm_agg equal_monetary) = Inr [Some 5, Some 1] \<and>
   f_scores (rfm_agg equal_monetary) = Inr [Some 1, Some 5] \<and>
   m_scores (rfm_agg equal_monetary) = Inl ValueError \<and>
   perform_rfm_analysis equal_monetary = Inl ValueError"
  by code_simp

text \<open>
  C6 (evaluation).  Two customers who bought on the same day: the table has two distinct
  customer ids and the run raises, so there is no profile at all.
\<close>

theorem same_day_customers_raises:
  "group_keys same_day_customers = [1, 2] \<and>
   perform_rfm_analysis same_day_customers = Inl ValueError"
  by code_simp

text \<open>
  C8 (evaluation).  Five customers with monetary 10, 20, 30, 40, 50, equal recency and equal
  frequency: the monetary column alone is scored 1, 2, 3, 4, 5, but the recency column raises,
  and so does the run.
\<close>

theorem monetary_10_to_50_raises:
  "m_scores (rfm_agg monetary_10_to_50) = Inr [Some 1, Some 2, Some 3, Some 4, Some 5] \<and>
   r_scores (rfm_agg monetary_10_to_50) = Inl ValueError \<and>
   perform_rfm_analysis monetary_10_to_50 = Inl ValueError"
  by code_simp

subsection \<open>Failure conditions\<close>

text \<open>
  A frame without text is run as its typed frame; a run that returns has passed every line.
\<close>

lemma score_rfm_stages:
  "(case r_scores rfm of Inl e \<Rightarrow> Inl e
    | Inr rs \<Rightarrow> (case f_scores rfm of Inl e \<Rightarrow> Inl e | Inr fs \<Rightarrow> score_rfm rfm)) = score_rfm rfm"
  by (simp add: score_rfm_def split: sum.splits)

lemma raw_Inr:
  assumes "perform_rfm_analysis_raw df = Inr ps"
  shows "score_rfm (rfm_agg (map typed df)) = Inr ps"
    and "list_ex is_text (map raw_transaction_date df) \<Longrightarrow> group_keys (map typed df) = []"
    and "c \<in> set (group_keys (map typed df)) \<Longrightarrow>
      \<not> list_ex is_text (map raw_total_amount (filter (\<lambda>t. raw_customer_id t = Some c) df))"
proof -
  show "score_rfm (rfm_agg (map typed df)) = Inr ps"
    using assms
    by (auto simp: perform_rfm_analysis_raw_def Let_def score_rfm_def split: if_splits sum.splits)
  show "group_keys (map typed df) = []" if "list_ex is_text (map raw_transaction_date df)"
    using assms that by (auto simp: perform_rfm_analysis_raw_def Let_def split: if_splits)
  show "\<not> list_ex is_text (map raw_total_amount (filter (\<lambda>t. raw_customer_id t = Some c) df))"
    if "c \<in> set (group_keys (map typed df))"
    using assms that
    by (auto simp: perform_rfm_analysis_raw_def Let_def list_ex_iff split: if_splits sum.splits)
qed

lemma raw_without_text:
  assumes "\<not> list_ex is_text (map raw_transaction_date df)"
    and "\<not> list_ex is_text (map raw_total_amount df)"
  shows "perform_rfm_analysis_raw df = perform_rfm_analysis (map typed df)"
proof -
  have "\<not> list_ex (\<lambda>c. list_ex is_text
      (map raw_total_amount (filter (\<lambda>t. raw_customer_id t = Some c) df))) keys" for keys
    using assms(2) by (auto simp: list_ex_iff)
  then have a: "list_ex (\<lambda>c. list_ex is_text
      (map raw_total_amount (filter (\<lambda>t. raw_customer_id t = Some c) df))) keys = False" for keys
    by simp
  have b: "list_ex (\<lambda>c. list_ex is_text
      (map raw_total_amount (filter (\<lambda>t. raw_customer_id t = Some c) df)) \<and> list_ex is_value
      (map raw_total_amount (filter (\<lambda>t. raw_customer_id t = Some c) df))) keys = False" for keys
    using assms(2) by (auto simp: list_ex_iff)
  show ?thesis
    unfolding perform_rfm_analysis_raw_def Let_def a b perform_rfm_analysis_def
    using assms(1) by (simp add: score_rfm_stages)
qed

lemma score_rfm_empty: "score_rfm [] = Inl ValueError"
  by (simp add: score_rfm_def r_scores_def qcut_def)

lemma raw_empty: "perform_rfm_analysis_raw [] = Inl ValueError"
  by (simp add: perform_rfm_analysis_raw_def rfm_agg_def group_keys_def r_scores_def qcut_def)

lemma raw_text_date:
  assumes "t \<in> set df" and "raw_transaction_date t = Text"
  shows "isl (perform_rfm_analysis_raw df)"
proof (cases "perform_rfm_analysis_raw df")
  case (Inl e)
  then show ?thesis by simp
next
  case (Inr ps)
  have "list_ex is_text (map raw_transaction_date df)"
    using assms by (force simp: list_ex_iff)
  from raw_Inr(2)[OF Inr this] have "rfm_agg (map typed df) = []"
    by (simp add: rfm_agg_def Let_def)
  with raw_Inr(1)[OF Inr] show ?thesis by (simp add: score_rfm_empty)
qed

lemma raw_text_amount:
  assumes "t \<in> set df" and "raw_total_amount t = Text" and "raw_customer_id t = Some c"
  shows "isl (perform_rfm_analysis_raw df)"
proof (cases "perform_rfm_analysis_raw df")
  case (Inl e)
  then show ?thesis by simp
next
  case (Inr ps)
  have "typed t \<in> set (map typed df)"
    using assms(1) by simp
  moreover have "customer_id (typed t) = Some c"
    using assms(3) by (simp add: typed_def)
  ultimately have "c \<in> set (group_keys (map typed df))"
    unfolding set_group_keys by blast
  from raw_Inr(3)[OF Inr this] assms show ?thesis
    by (force simp: list_ex_iff)
qed

lemma raw_customer_without_date:
  assumes "t \<in> set df" and "raw_customer_id t = Some c"
    and "\<forall>u\<in>set df. raw_customer_id u = Some c \<longrightarrow> \<not> is_value (raw_transaction_date u)"
  shows "isl (perform_rfm_analysis_raw df)"
proof (cases "perform_rfm_analysis_raw df")
  case (Inl e)
  then show ?thesis by simp
next
  case (Inr ps)
  have none: "parsed x = None" if "\<not> is_value x" for x :: "int cell"
    using that by (cases x) simp_all
  have "typed t \<in> set (map typed df)"
    using assms(1) by simp
  moreover have "customer_id (typed t) = Some c"
    using assms(2) by (simp add: typed_def)
  moreover have "\<forall>u\<in>set (map typed df). customer_id u = Some c \<longrightarrow> transaction_date u = None"
    using assms(3) by (auto simp: typed_def none)
  ultimately have "perform_rfm_analysis (map typed df) = Inl ValueError"
    by (rule customer_without_date)
  with raw_Inr(1)[OF Inr] show ?thesis by (simp add: perform_rfm_analysis_def)
qed

lemma raw_stage_raises:
  assumes "isl (r_scores (rfm_agg (map typed df))) \<or> isl (f_scores (rfm_agg (map typed df))) \<or>
     isl (m_scores (rfm_agg (map typed df)))"
  shows "isl (perform_rfm_analysis_raw df)"
proof (cases "perform_rfm_analysis_raw df")
  case (Inl e)
  then show ?thesis by simp
next
  case (Inr ps)
  from score_rfm_Inr[OF raw_Inr(1)[OF Inr]] assms show ?thesis by auto
qed

text \<open>
  C4 (counterexample).  This frame has a row without amount, a row without customer id, a row
  without date beside a dated row of the same customer, and a row without customer id whose
  amount is text; the run returns the profiles of the two customers.  The sum and the maximum
  skip a missing cell, and the grouping leaves out a row without customer id, amount and all.
\<close>

theorem incomplete_rows_accepted:
  "raw_total_amount (incomplete_rows ! 2) = NaN \<and>
   raw_customer_id (incomplete_rows ! 3) = None \<and>
   raw_transaction_date (incomplete_rows ! 4) = NaN \<and>
   raw_customer_id (incomplete_rows ! 5) = None \<and> raw_total_amount (incomplete_rows ! 5) = Text \<and>
   perform_rfm_analysis_raw incomplete_rows = Inr incomplete_profiles"
  by code_simp

text \<open>
  C4 (amended).  The run raises on the empty frame; when the date of any row is text; when
  the amount of any row that has a customer id is text; and when some customer has no date on
  any row.  When one of the three score lines raises, the run raises: the frame scored so far
  is not returned.
\<close>

theorem failure_conditions:
  "perform_rfm_analysis_raw ([] :: ('c::linorder) raw_transaction list) = Inl ValueError \<and>
   (t \<in> set df \<and> raw_transaction_date t = Text \<longrightarrow> isl (perform_rfm_analysis_raw df)) \<and>
   (t \<in> set df \<and> raw_total_amount t = Text \<and> raw_customer_id t = Some (c::'c)
      \<longrightarrow> isl (perform_rfm_analysis_raw df)) \<and>
   (t \<in> set df \<and> raw_customer_id t = Some c \<and>
      (\<forall>u\<in>set df. raw_customer_id u = Some c \<longrightarrow> \<not> is_value (raw_transaction_date u))
      \<longrightarrow> isl (perform_rfm_analysis_raw df)) \<and>
   (isl (r_scores (rfm_agg (map typed df))) \<or> isl (f_scores (rfm_agg (map typed df))) \<or>
      isl (m_scores (rfm_agg (map typed df))) \<longrightarrow> isl (perform_rfm_analysis_raw df))"
  using raw_empty raw_text_date raw_text_amount raw_customer_without_date raw_stage_raises
  by blast

theorem failure_conditions_witness:
  "perform_rfm_analysis_raw ([] :: nat raw_transaction list) = Inl ValueError \<and>
   isl (perform_rfm_analysis_raw text_date) \<and>
   isl (perform_rfm_analysis_raw text_amount) \<and>
   isl (perform_rfm_analysis_raw missing_date) \<and>
   isl (perform_rfm_analysis_raw raw_equal_monetary)"
proof -
  have d: "text_date ! 1 \<in> set text_date \<and> raw_transaction_date (text_date ! 1) = Text"
    by (simp add: text_date_def)
  have a: "text_amount ! 1 \<in> set text_amount \<and> raw_total_amount (text_amount ! 1) = Text \<and>
      raw_customer_id (text_amount ! 1) = Some 2"
    by (simp add: text_amount_def)
  have m: "missing_date ! 1 \<in> set missing_date \<and> raw_customer_id (missing_date ! 1) = Some 2 \<and>
      (\<forall>u\<in>set missing_date. raw_customer_id u = Some 2 \<longrightarrow> \<not> is_value (raw_transaction_date u))"
    by (simp add: missing_date_def raw_purchase_def)
  have s: "isl (r_scores (rfm_agg (map typed raw_equal_monetary))) \<or>
      isl (f_scores (rfm_agg (map typed raw_equal_monetary))) \<or>
      isl (m_scores (rfm_agg (map typed raw_equal_monetary)))"
    by code_simp
  from failure_conditions[of "text_date ! 1" text_date 2] d
    failure_conditions[of "text_amount ! 1" text_amount 2] a
    failure_conditions[of "missing_date ! 1" missing_date 2] m
    failure_conditions[of "raw_equal_monetary ! 0" raw_equal_monetary 1] s
  show ?thesis by blast
qed

subsection \<open>The frequency score\<close>











lemma length_bin_edges: "length (bin_edges x q) = q + 1"
  by (simp add: bin_edges_def)





lemma length_group_keys: "length (group_keys df) = card {c. \<exists>t\<in>set df. customer_id t = Some c}"
proof -
  have "length (group_keys df) = card (set (dropna (map customer_id df)))"
    by (simp add: group_keys_def length_remdups_card_conv)
  also have "set (dropna (map customer_id df)) = {c. \<exists>t\<in>set df. customer_id t = Some c}"
    by (auto simp: set_dropna image_iff) (metis)+
  finally show ?thesis .
qed



subsection \<open>The recency score\<close>

lemma sorted_below_index:
  "sorted vs \<Longrightarrow> j < length vs \<Longrightarrow> (vs ! j < x) = (j < length (filter (\<lambda>v. v < x) vs))"
proof (induction vs arbitrary: j)
  case Nil
  then show ?case by simp
next
  case (Cons a vs)
  show ?case
  proof (cases "a < x")
    case True
    with Cons show ?thesis by (cases j) auto
  next
    case False
    with Cons.prems have all: "\<forall>v\<in>set (a # vs). \<not> v < x" by auto
    then have "filter (\<lambda>v. v < x) (a # vs) = []"
      by (simp add: filter_empty_conv)
    moreover have "(a # vs) ! j \<in> set (a # vs)"
      using Cons.prems(2) by (rule nth_mem)
    with all have "\<not> (a # vs) ! j < x" by blast
    ultimately show ?thesis by simp
  qed
qed

lemma length_filter_sort: "length (filter P (sort xs)) = length (filter P xs)"
  by (simp add: filter_sort)

lemma dropna_Some: "dropna (map Some xs) = xs"
  by (induction xs) auto

lemma length_filter_le_mono:
  "(\<And>x. x \<in> set xs \<Longrightarrow> P x \<Longrightarrow> Q x) \<Longrightarrow> length (filter P xs) \<le> length (filter Q xs)"
  by (induction xs) auto

lemma bucket_mono:
  assumes "l' \<le> l" and "0 < q"
  shows "bucket n q l' \<le> bucket n q l"
proof (cases "l' = 0")
  case True
  show ?thesis
  proof (cases "l = 0")
    case True
    with \<open>l' = 0\<close> show ?thesis by simp
  next
    case False
    have "0 \<in> set (filter (\<lambda>k. k * (n - 1) < q * l) [0..<q + 1])"
      using False assms(2) by simp
    then have "0 < length (filter (\<lambda>k. k * (n - 1) < q * l) [0..<q + 1])"
      by (rule length_pos_if_in_set)
    then have "1 \<le> length (filter (\<lambda>k. k * (n - 1) < q * l) [0..<q + 1])"
      by linarith
    moreover have "bucket n q l' = 1" using True by (simp add: bucket_def)
    moreover have "bucket n q l = length (filter (\<lambda>k. k * (n - 1) < q * l) [0..<q + 1])"
      using False by (simp only: bucket_def if_False)
    ultimately show ?thesis by (simp only:)
  qed
next
  case False
  with assms(1) have "l \<noteq> 0" by simp
  have "k * (n - 1) < q * l" if "k * (n - 1) < q * l'" for k
  proof -
    have "q * l' \<le> q * l" using assms(1) by simp
    with that show ?thesis by linarith
  qed
  then have "length (filter (\<lambda>k. k * (n - 1) < q * l') [0..<q + 1])
      \<le> length (filter (\<lambda>k. k * (n - 1) < q * l) [0..<q + 1])"
    by (intro length_filter_le_mono) simp
  with False \<open>l \<noteq> 0\<close> show ?thesis by (simp add: bucket_def del: upt_Suc)
qed

lemma bucket_le: "bucket n q l \<le> q + 1"
proof -
  have "length (filter (\<lambda>k. k * (n - 1) < q * l) [0..<q + 1]) \<le> length [0..<q + 1]"
    by (rule length_filter_le)
  then show ?thesis by (simp add: bucket_def)
qed

lemma count_below_mono:
  fixes xs :: "('a::linorder) list"
  assumes len: "length xs' = length xs" and i: "i < length xs"
    and others: "\<forall>j<length xs. j \<noteq> i \<longrightarrow> xs' ! j = xs ! j"
    and less: "xs' ! i < xs ! i"
  shows "length (filter (\<lambda>v. v < xs' ! i) xs') \<le> length (filter (\<lambda>v. v < xs ! i) xs)"
proof -
  have "{j. j < length xs' \<and> xs' ! j < xs' ! i} \<subseteq> {j. j < length xs \<and> xs ! j < xs ! i}"
  proof
    fix j assume "j \<in> {j. j < length xs' \<and> xs' ! j < xs' ! i}"
    then have j: "j < length xs" "xs' ! j < xs' ! i" using len by simp_all
    then have "j \<noteq> i" by auto
    with others j(1) have "xs' ! j = xs ! j" by simp
    with j less show "j \<in> {j. j < length xs \<and> xs ! j < xs ! i}" by simp
  qed
  then have "card {j. j < length xs' \<and> xs' ! j < xs' ! i} \<le> card {j. j < length xs \<and> xs ! j < xs ! i}"
    by (intro card_mono) simp_all
  then show ?thesis by (simp add: length_filter_conv_card)
qed

lemma qcut_with_linear: "qcut_with quantile_linear = qcut"
  by (intro ext) (simp add: qcut_with_def qcut_def bin_edges_with_def bin_edges_def)

lemma scores_with_linear:
  "r_scores_with quantile_linear rfm = r_scores rfm"
  "f_scores_with quantile_linear rfm = f_scores rfm"
  "m_scores_with quantile_linear rfm = m_scores rfm"
  by (simp_all add: r_scores_with_def r_scores_def f_scores_with_def f_scores_def
      m_scores_with_def m_scores_def qcut_with_linear)

lemma score_rfm_with_linear: "score_rfm_with quantile_linear rfm = score_rfm rfm"
  unfolding score_rfm_with_def score_rfm_def scores_with_linear ..

lemma within_cell_linear: "within_cell quantile_linear"
  unfolding within_cell_def Let_def
proof (intro allI impI)
  fix vs :: "rat list" and k :: nat
  assume srt: "sorted vs" and ne: "vs \<noteq> []" and k: "k \<le> 5"
  define n where "n = length vs"
  define p where "p = k * (n - 1)"
  define lo where "lo = p div 5"
  define r where "r = p mod 5"
  have n: "0 < n" using ne by (simp add: n_def)
  have pq: "p = 5 * lo + r" by (simp add: lo_def r_def)
  have rq: "r < 5" by (simp add: r_def)
  have ple: "p \<le> 5 * (n - 1)" using k by (simp add: p_def)
  have lo_n: "lo < n" using pq ple n by linarith
  have e0: "quantile_linear vs 5 0 = vs ! 0" by (simp add: quantile_linear_def)
  have main: "vs ! lo \<le> quantile_linear vs 5 k \<and>
      (if lo + 1 < n
       then quantile_linear vs 5 k \<le> vs ! (lo + 1) \<and>
         (vs ! lo < vs ! (lo + 1) \<longrightarrow> quantile_linear vs 5 k < vs ! (lo + 1))
       else quantile_linear vs 5 k = vs ! lo)"
  proof (cases "r = 0")
    case True
    have q: "quantile_linear vs 5 k = vs ! lo"
      using True by (simp add: quantile_linear_def Let_def n_def p_def lo_def r_def)
    have "vs ! lo \<le> vs ! (lo + 1)" if "lo + 1 < n"
      using srt that by (simp add: sorted_nth_mono n_def)
    then show ?thesis by (simp add: q)
  next
    case False
    then have hi: "lo + 1 < n" using pq ple by linarith
    define t :: rat where "t = of_nat r / 5"
    have t: "0 < t" "t < 1" using False rq by (simp_all add: t_def)
    define a where "a = vs ! lo"
    define b where "b = vs ! (lo + 1)"
    have ab: "a \<le> b" using srt hi by (simp add: a_def b_def sorted_nth_mono n_def)
    have q: "quantile_linear vs 5 k = a + (b - a) * t"
      using False by (simp add: quantile_linear_def Let_def n_def p_def lo_def r_def a_def b_def t_def)
    have l: "a \<le> a + (b - a) * t" using ab t by simp
    have "(b - a) * t \<le> (b - a) * 1" using ab t by (intro mult_left_mono) simp_all
    then have u: "a + (b - a) * t \<le> b" by simp
    have s: "a + (b - a) * t < b" if "a < b"
    proof -
      have "(b - a) * t < (b - a) * 1" using that t by (intro mult_strict_left_mono) simp_all
      then show ?thesis by simp
    qed
    show ?thesis using hi l u s by (simp add: q a_def b_def)
  qed
  show "quantile_linear vs 5 0 = vs ! 0 \<and>
      vs ! (k * (length vs - 1) div 5) \<le> quantile_linear vs 5 k \<and>
      (if k * (length vs - 1) div 5 + 1 < length vs
       then quantile_linear vs 5 k \<le> vs ! (k * (length vs - 1) div 5 + 1) \<and>
         (vs ! (k * (length vs - 1) div 5) < vs ! (k * (length vs - 1) div 5 + 1) \<longrightarrow>
          quantile_linear vs 5 k < vs ! (k * (length vs - 1) div 5 + 1))
       else quantile_linear vs 5 k = vs ! (k * (length vs - 1) div 5))"
    using e0 main unfolding lo_def p_def n_def by blast
qed

lemma edge_below_iff:
  fixes vs :: "rat list"
  assumes cell: "within_cell E" and srt: "sorted vs" and ints: "set vs \<subseteq> \<int>"
    and x: "x \<in> set vs" and k: "k \<le> 5"
  shows "(E vs 5 k < x) = (k * (length vs - 1) < 5 * length (filter (\<lambda>v. v < x) vs))"
proof -
  define n where "n = length vs"
  define L where "L = length (filter (\<lambda>v. v < x) vs)"
  define lo where "lo = (k * (n - 1)) div 5"
  have ne: "vs \<noteq> []" using x by auto
  have idx: "(vs ! j < x) = (j < L)" if "j < n" for j
    using sorted_below_index[OF srt, of j x] that by (simp add: n_def L_def)
  from x obtain j where j: "j < n" "vs ! j = x" by (auto simp: in_set_conv_nth n_def)
  with idx[of j] have Lj: "L \<le> j" by simp
  with j have Ln: "L < n" by simp
  have "\<not> vs ! L < x" using idx[OF Ln] by simp
  moreover have "vs ! L \<le> vs ! j" using srt Lj j(1) by (simp add: sorted_nth_mono n_def)
  ultimately have vL: "vs ! L = x" using j(2) by simp
  have ple: "k * (n - 1) \<le> 5 * (n - 1)" using k by simp
  have lo_n: "lo < n" using ple Ln unfolding lo_def by linarith
  from cell srt ne ints k
  have c: "vs ! lo \<le> E vs 5 k \<and>
      (if lo + 1 < n
       then E vs 5 k \<le> vs ! (lo + 1) \<and> (vs ! lo < vs ! (lo + 1) \<longrightarrow> E vs 5 k < vs ! (lo + 1))
       else E vs 5 k = vs ! lo)"
    unfolding within_cell_def Let_def lo_def n_def by blast
  have "(E vs 5 k < x) = (lo < L)"
  proof
    assume "E vs 5 k < x"
    with c have "vs ! lo < x" by simp
    then show "lo < L" using idx[OF lo_n] by simp
  next
    assume lt: "lo < L"
    then have ax: "vs ! lo < x" using idx[OF lo_n] by simp
    have hi: "lo + 1 < n" using lt Ln by simp
    have "vs ! (lo + 1) \<le> vs ! L" using srt lt Ln by (intro sorted_nth_mono) (simp_all add: n_def)
    then have bx: "vs ! (lo + 1) \<le> x" using vL by simp
    show "E vs 5 k < x"
    proof (cases "vs ! lo < vs ! (lo + 1)")
      case True
      with c hi have "E vs 5 k < vs ! (lo + 1)" by simp
      with bx show ?thesis by simp
    next
      case False
      with c hi have "E vs 5 k \<le> vs ! lo" by simp
      with ax show ?thesis by simp
    qed
  qed
  moreover have "(lo < L) = (k * (n - 1) < 5 * L)" unfolding lo_def by linarith
  ultimately show ?thesis by (simp add: n_def L_def)
qed

lemma length_bin_edges_with: "length (bin_edges_with E x q) = q + 1"
  by (simp add: bin_edges_with_def)

lemma searchsorted_edges_with:
  fixes xs :: "rat list"
  assumes cell: "within_cell E" and ints: "set xs \<subseteq> \<int>" and y: "y \<in> set xs"
  shows "searchsorted_left (bin_edges_with E (map Some xs) 5) y =
     length (filter (\<lambda>k. k * (length xs - 1) < 5 * length (filter (\<lambda>v. v < y) xs)) [0..<5 + 1])"
proof -
  have iff: "(E (sort xs) 5 k < y) =
      (k * (length xs - 1) < 5 * length (filter (\<lambda>v. v < y) xs))" if "k \<le> 5" for k
    using edge_below_iff[OF cell, of "sort xs" y k] ints y that by (simp add: length_filter_sort)
  have "searchsorted_left (bin_edges_with E (map Some xs) 5) y =
      length (filter (\<lambda>k. E (sort xs) 5 k < y) [0..<5 + 1])"
    by (simp add: searchsorted_left_def bin_edges_with_def dropna_Some filter_map comp_def
        del: upt_Suc)
  also have "filter (\<lambda>k. E (sort xs) 5 k < y) [0..<5 + 1] =
      filter (\<lambda>k. k * (length xs - 1) < 5 * length (filter (\<lambda>v. v < y) xs)) [0..<5 + 1]"
    by (rule filter_cong) (auto simp: iff)
  finally show ?thesis .
qed

lemma hd_edges_with_iff:
  fixes xs :: "rat list"
  assumes cell: "within_cell E" and ints: "set xs \<subseteq> \<int>" and y: "y \<in> set xs"
  shows "(y = hd (bin_edges_with E (map Some xs) 5)) = (length (filter (\<lambda>v. v < y) xs) = 0)"
proof -
  let ?vs = "sort xs"
  have "xs \<noteq> []" using y by auto
  then have len: "0 < length ?vs" by simp
  then have ne: "?vs \<noteq> []" by (metis length_greater_0_conv)
  have "E ?vs 5 0 = ?vs ! 0"
    using cell ne ints unfolding within_cell_def Let_def
    by (metis le0 set_sort sorted_sort)
  moreover have "hd (bin_edges_with E (map Some xs) 5) = E ?vs 5 0"
    by (simp add: bin_edges_with_def dropna_Some hd_map upt_conv_Cons del: upt_Suc)
  ultimately have hd: "hd (bin_edges_with E (map Some xs) 5) = ?vs ! 0" by simp
  have idx: "(?vs ! 0 < y) = (0 < length (filter (\<lambda>v. v < y) xs))"
    using sorted_below_index[of ?vs 0 y] len by (simp add: length_filter_sort)
  from y obtain j where j: "j < length ?vs" "?vs ! j = y"
    by (metis in_set_conv_nth set_sort)
  have le: "?vs ! 0 \<le> y" using sorted_nth_mono[of ?vs 0 j] j by simp
  show ?thesis using hd idx le by auto
qed

lemma cut_value_bucket_with:
  fixes xs :: "rat list"
  assumes cell: "within_cell E" and ints: "set xs \<subseteq> \<int>" and y: "y \<in> set xs"
  shows "cut_value (bin_edges_with E (map Some xs) 5) labels (Some y) =
     (let ids = bucket (length xs) 5 (length (filter (\<lambda>v. v < y) xs))
      in if ids = 5 + 1 \<or> ids = 0 then None else Some (labels ! (ids - 1)))"
  using hd_edges_with_iff[OF assms] searchsorted_edges_with[OF assms]
  by (simp add: cut_value_def bucket_def Let_def length_bin_edges_with del: upt_Suc)

lemma qcut_with_Inr:
  assumes "qcut_with E x q labels = Inr ss"
  shows "length ss = length x"
    and "\<And>i. i < length x \<Longrightarrow> x ! i = None \<Longrightarrow> ss ! i = None"
proof -
  show "length ss = length x"
    using assms by (auto simp: qcut_with_def Let_def split: if_splits)
  have form: "ss = map (\<lambda>_. None) x \<or> (\<exists>bins. ss = map (cut_value bins labels) x)"
    using assms by (auto simp: qcut_with_def Let_def split: if_splits)
  show "ss ! i = None" if "i < length x" and "x ! i = None" for i
    using form that by (auto simp: cut_value_def)
qed

lemma qcut_with_Inr_form:
  assumes "qcut_with E x q labels = Inr ss" and "dropna x \<noteq> []" and "length labels = q"
  shows "ss = map (cut_value (bin_edges_with E x q) labels) x"
proof -
  have ne: "sort (dropna x) \<noteq> []" using assms(2) by (metis length_sort length_0_conv)
  show ?thesis
  proof (cases "length (unique (bin_edges_with E x q)) < length (bin_edges_with E x q) \<and>
      length (bin_edges_with E x q) \<noteq> 2")
    case True
    then have "length labels + 1 \<noteq> length (unique (bin_edges_with E x q))"
      using assms(3) by (simp add: length_bin_edges_with)
    with True ne assms(1) show ?thesis
      by (simp add: qcut_with_def Let_def split: if_splits)
  next
    case False
    with ne assms(1) show ?thesis
      by (auto simp: qcut_with_def Let_def split: if_splits)
  qed
qed

lemma score_rfm_with_Inr:
  assumes "score_rfm_with E rfm = Inr ps"
  shows "\<exists>rs fs ms. r_scores_with E rfm = Inr rs \<and> length rs = length rfm \<and>
     length ps = length rfm \<and>
     (\<forall>i<length rfm. label_row (rfm ! i, rs ! i, fs ! i, ms ! i) = Inr (ps ! i))"
proof -
  from assms obtain rs fs ms where r: "r_scores_with E rfm = Inr rs"
    and f: "f_scores_with E rfm = Inr fs" and m: "m_scores_with E rfm = Inr ms"
    and a: "apply_rows label_row (zip rfm (zip rs (zip fs ms))) = Inr ps"
    by (auto simp: score_rfm_with_def split: sum.splits)
  have lr: "length rs = length rfm"
    using r qcut_with_Inr(1) by (fastforce simp: r_scores_with_def)
  have lf: "length fs = length rfm"
    using f qcut_with_Inr(1) by (fastforce simp: f_scores_with_def frequency_rank_def rank_first_def)
  have lm: "length ms = length rfm"
    using m qcut_with_Inr(1) by (fastforce simp: m_scores_with_def)
  from a have l2: "list_all2 (\<lambda>x y. label_row x = Inr y) (zip rfm (zip rs (zip fs ms))) ps"
    by (rule apply_rows_Inr)
  then have lp: "length ps = length rfm"
    using lr lf lm by (auto dest: list_all2_lengthD)
  have "\<forall>i<length rfm. label_row (rfm ! i, rs ! i, fs ! i, ms ! i) = Inr (ps ! i)"
  proof (intro allI impI)
    fix i assume i: "i < length rfm"
    then have "label_row (zip rfm (zip rs (zip fs ms)) ! i) = Inr (ps ! i)"
      using l2 lr lf lm by (auto dest: list_all2_nthD)
    then show "label_row (rfm ! i, rs ! i, fs ! i, ms ! i) = Inr (ps ! i)"
      using i lr lf lm by simp
  qed
  with r lr lp show ?thesis by blast
qed

lemma r_score_bucket_with:
  assumes cell: "within_cell E" and run: "score_rfm_with E rfm = Inr ps" and i: "i < length rfm"
  shows "p_customer_id (ps ! i) = index_customer_id (rfm ! i) \<and>
     r_score (ps ! i) = 6 - int (bucket (length rfm) 5
       (length (filter (\<lambda>v. v < the (recency (rfm ! i))) (map (\<lambda>row. the (recency row)) rfm))))"
proof -
  define xs where "xs = map (\<lambda>row. the (recency row)) rfm"
  define ys :: "rat list" where "ys = map of_int xs"
  define ids where "ids = bucket (length rfm) 5 (length (filter (\<lambda>v. v < ys ! i) ys))"
  from score_rfm_with_Inr[OF run] obtain rs fs ms where
    r: "r_scores_with E rfm = Inr rs"
    and lab: "\<forall>i<length rfm. label_row (rfm ! i, rs ! i, fs ! i, ms ! i) = Inr (ps ! i)"
    by blast
  have cellr: "\<exists>r'. rs ! j = Some r' \<and> r_score (ps ! j) = r' \<and>
      p_customer_id (ps ! j) = index_customer_id (rfm ! j)" if "j < length rfm" for j
  proof -
    from lab that have "label_row (rfm ! j, rs ! j, fs ! j, ms ! j) = Inr (ps ! j)" by simp
    from label_row_Inr[OF this] show ?thesis by auto
  qed
  have present: "recency row \<noteq> None" if "row \<in> set rfm" for row
  proof -
    from that obtain j where j: "j < length rfm" "rfm ! j = row"
      by (auto simp: in_set_conv_nth)
    show ?thesis
    proof
      assume "recency row = None"
      then have "rs ! j = None"
        using qcut_with_Inr(2)[OF r[unfolded r_scores_with_def], of j] j by simp
      with cellr[OF j(1)] show False by simp
    qed
  qed
  have col: "map (\<lambda>row. map_option of_int (recency row)) rfm = map Some ys"
    using present by (auto simp: ys_def xs_def)
  have leny: "length ys = length rfm" by (simp add: ys_def xs_def)
  have ints: "set ys \<subseteq> \<int>" by (auto simp: ys_def)
  have yi: "ys ! i \<in> set ys" using i leny by simp
  from cellr[OF i] obtain r' where rs: "rs ! i = Some r'" and r': "r_score (ps ! i) = r'"
    and cid: "p_customer_id (ps ! i) = index_customer_id (rfm ! i)" by blast
  have ne: "dropna (map Some ys) \<noteq> []" using i leny by (auto simp: dropna_Some)
  have "rs = map (cut_value (bin_edges_with E (map Some ys) 5) [5, 4, 3, 2, 1]) (map Some ys)"
    using r ne unfolding r_scores_with_def col by (intro qcut_with_Inr_form) simp_all
  then have "rs ! i = cut_value (bin_edges_with E (map Some ys) 5) [5, 4, 3, 2, 1] (Some (ys ! i))"
    using i leny by simp
  also have "\<dots> = (if ids = 5 + 1 \<or> ids = 0 then None else Some ([5, 4, 3, 2, 1] ! (ids - 1)))"
    using cut_value_bucket_with[OF cell ints yi, of "[5, 4, 3, 2, 1]"] leny
    by (simp add: ids_def Let_def)
  finally have cell': "(if ids = 5 + 1 \<or> ids = 0 then None else Some ([5, 4, 3, 2, 1] ! (ids - 1)))
      = Some r'" using rs by simp
  have "ids \<le> 5 + 1" unfolding ids_def by (rule bucket_le)
  with cell' have "ids \<in> {1, 2, 3, 4, 5}" by (auto split: if_splits)
  with cell' have "r' = 6 - int ids" by (auto split: if_splits)
  moreover have "length (filter (\<lambda>v. v < ys ! i) ys) =
      length (filter (\<lambda>v. v < the (recency (rfm ! i))) (map (\<lambda>row. the (recency row)) rfm))"
    using i by (simp add: ys_def xs_def filter_map comp_def)
  ultimately show ?thesis using r' cid by (simp add: ids_def)
qed

text \<open>
  C7.  Take two aggregated frames that are identical except that the recency of one customer
  is strictly smaller in the second, and any quantile computation \<open>E\<close> that keeps every edge
  within its cell.  If both runs return, that customer's r\_score in the second run is at
  least the r\_score in the first.
\<close>

theorem recency_score_monotone:
  assumes cell: "within_cell E"
    and run: "score_rfm_with E rfm = Inr ps" and run': "score_rfm_with E rfm' = Inr ps'"
    and i: "i < length rfm"
    and a: "recency (rfm ! i) = Some a" and less: "b < a"
    and same: "rfm' = rfm[i := (rfm ! i)\<lparr>recency := Some b\<rparr>]"
  shows "p_customer_id (ps' ! i) = p_customer_id (ps ! i) \<and> r_score (ps ! i) \<le> r_score (ps' ! i)"
proof -
  define xs where "xs = map (\<lambda>row. the (recency row)) rfm"
  define xs' where "xs' = map (\<lambda>row. the (recency row)) rfm'"
  have len: "length rfm' = length rfm" by (simp add: same)
  have lenx: "length xs' = length xs" "length xs = length rfm" by (simp_all add: xs_def xs'_def len)
  have xi: "xs ! i = a" "xs' ! i = b" using i a by (simp_all add: xs_def xs'_def same)
  have others: "\<forall>j<length xs. j \<noteq> i \<longrightarrow> xs' ! j = xs ! j"
    using lenx by (simp add: xs_def xs'_def same)
  have "length (filter (\<lambda>v. v < xs' ! i) xs') \<le> length (filter (\<lambda>v. v < xs ! i) xs)"
    using lenx(1) _ others
  proof (rule count_below_mono)
    show "i < length xs" using i lenx by simp
    show "xs' ! i < xs ! i" using xi less by simp
  qed
  then have b: "bucket (length rfm) 5 (length (filter (\<lambda>v. v < xs' ! i) xs'))
      \<le> bucket (length rfm) 5 (length (filter (\<lambda>v. v < xs ! i) xs))"
    by (rule bucket_mono) simp
  have r: "p_customer_id (ps ! i) = index_customer_id (rfm ! i) \<and>
      r_score (ps ! i) = 6 - int (bucket (length rfm) 5 (length (filter (\<lambda>v. v < xs ! i) xs)))"
    using r_score_bucket_with[OF cell run i] i by (simp add: xs_def)
  have r': "p_customer_id (ps' ! i) = index_customer_id (rfm' ! i) \<and>
      r_score (ps' ! i) = 6 - int (bucket (length rfm) 5 (length (filter (\<lambda>v. v < xs' ! i) xs')))"
    using r_score_bucket_with[OF cell run', of i] i len by (simp add: xs'_def)
  have "index_customer_id (rfm' ! i) = index_customer_id (rfm ! i)"
    using i by (simp add: same)
  with b r r' show ?thesis by simp
qed

theorem recency_score_monotone_witness:
  "score_rfm_with quantile_linear (rfm_agg five_customers) = Inr five_profiles \<and>
   score_rfm_with quantile_linear (rfm_agg five_customers_later) = Inr later_profiles \<and>
   recency (rfm_agg five_customers ! 2) = Some 3 \<and>
   recency (rfm_agg five_customers_later ! 2) = Some 1 \<and>
   r_score (five_profiles ! 2) = 3 \<and> r_score (later_profiles ! 2) = 4 \<and>
   r_score (five_profiles ! 2) \<le> r_score (later_profiles ! 2)"
proof -
  have run: "score_rfm_with quantile_linear (rfm_agg five_customers) = Inr five_profiles"
    using five_customers_run by (simp add: score_rfm_with_linear perform_rfm_analysis_def)
  have "perform_rfm_analysis five_customers_later = Inr later_profiles"
    by code_simp
  then have run': "score_rfm_with quantile_linear (rfm_agg five_customers_later) = Inr later_profiles"
    by (simp add: score_rfm_with_linear perform_rfm_analysis_def)
  have i: "2 < length (rfm_agg five_customers)"
    by code_simp
  have a: "recency (rfm_agg five_customers ! 2) = Some 3"
    by code_simp
  have b: "recency (rfm_agg five_customers_later ! 2) = Some 1"
    by code_simp
  have less: "(1::int) < 3"
    by simp
  have same: "rfm_agg five_customers_later =
      (rfm_agg five_customers)[2 := (rfm_agg five_customers ! 2)\<lparr>recency := Some 1\<rparr>]"
    by code_simp
  have v: "r_score (five_profiles ! 2) = 3" "r_score (later_profiles ! 2) = 4"
    by (simp_all add: five_profiles_def later_profiles_def)
  from recency_score_monotone[OF within_cell_linear run run' i a less same] run run' a b v
  show ?thesis by blast
qed

subsection \<open>The branch that drops repeated edges\<close>

text \<open>
  Whenever two of the six edges coincide, \<open>qcut\<close> with five labels raises: the edges that are
  left are fewer than six.  A column with a single value is such a column, so a table in which
  all customers have one monetary value, or one recency, makes the run raise.
\<close>

lemma length_unique_less: "\<not> distinct xs \<Longrightarrow> length (unique xs) < length xs"
proof -
  assume nd: "\<not> distinct xs"
  then have "\<not> distinct (rev xs)" by simp
  then have "remdups (rev xs) \<noteq> rev xs" by (metis distinct_remdups)
  then have "length (remdups (rev xs)) \<noteq> length (rev xs)" by (metis length_remdups_eq)
  moreover have "length (remdups (rev xs)) \<le> length (rev xs)" by (rule length_remdups_leq)
  ultimately show ?thesis by (simp add: unique_def)
qed

lemma collapse_branch_raises:
  assumes "\<not> distinct (bin_edges x 5)" and "length labels = 5"
  shows "qcut x 5 labels = Inl ValueError"
proof -
  have "length (unique (bin_edges x 5)) < 6"
    using length_unique_less[OF assms(1)] by (simp add: length_bin_edges)
  then show ?thesis
    using assms(2) by (simp add: qcut_def Let_def length_bin_edges)
qed

lemma constant_column_edges:
  fixes xs :: "rat list"
  assumes "xs \<noteq> []" and "\<forall>v\<in>set xs. v = c"
  shows "\<not> distinct (bin_edges (map Some xs) 5)"
proof -
  let ?vs = "sort xs"
  have n: "0 < length ?vs" using assms(1) by simp
  have all: "?vs ! j = c" if "j < length ?vs" for j
    using assms(2) nth_mem[OF that] by simp
  have e0: "bin_edges (map Some xs) 5 ! 0 = c"
    using all[of 0] n by (simp add: bin_edges_def dropna_Some quantile_linear_def nth_append del: upt_Suc)
  have "quantile_linear ?vs 5 5 = ?vs ! (length ?vs - 1)"
    by (simp add: quantile_linear_def Let_def)
  then have "quantile_linear ?vs 5 5 = c" using all[of "length ?vs - 1"] n by simp
  then have e5: "bin_edges (map Some xs) 5 ! 5 = c"
    by (simp add: bin_edges_def dropna_Some nth_append del: upt_Suc)
  show ?thesis
  proof
    assume "distinct (bin_edges (map Some xs) 5)"
    then have "(bin_edges (map Some xs) 5 ! 0 = bin_edges (map Some xs) 5 ! 5) = (0 = (5::nat))"
      by (intro nth_eq_iff_index_eq) (simp_all add: length_bin_edges)
    with e0 e5 show False by simp
  qed
qed

lemma score_rfm_raises:
  assumes "r_scores rfm = Inl ValueError \<or> m_scores rfm = Inl ValueError"
  shows "score_rfm rfm = Inl ValueError"
proof (cases "score_rfm rfm")
  case (Inl e)
  then show ?thesis using score_rfm_Inl by blast
next
  case (Inr ps)
  from score_rfm_Inr[OF Inr] assms show ?thesis by auto
qed

lemma one_monetary_value_raises:
  assumes "\<forall>row\<in>set (rfm_agg df). monetary row = c"
  shows "perform_rfm_analysis df = Inl ValueError"
proof (cases "rfm_agg df = []")
  case True
  then show ?thesis
    by (simp add: perform_rfm_analysis_def score_rfm_def r_scores_def qcut_def)
next
  case False
  let ?xs = "map monetary (rfm_agg df)"
  have col: "map (\<lambda>row. Some (monetary row)) (rfm_agg df) = map Some ?xs" by simp
  have "\<not> distinct (bin_edges (map Some ?xs) 5)"
    using False assms by (intro constant_column_edges[of _ c]) auto
  then have "m_scores (rfm_agg df) = Inl ValueError"
    unfolding m_scores_def col by (rule collapse_branch_raises) simp
  then show ?thesis
    unfolding perform_rfm_analysis_def by (intro score_rfm_raises) simp
qed

lemma one_recency_value_raises:
  assumes "\<forall>row\<in>set (rfm_agg df). recency row = Some c"
  shows "perform_rfm_analysis df = Inl ValueError"
proof (cases "rfm_agg df = []")
  case True
  then show ?thesis
    by (simp add: perform_rfm_analysis_def score_rfm_def r_scores_def qcut_def)
next
  case False
  let ?xs = "map (\<lambda>row. of_int c :: rat) (rfm_agg df)"
  have col: "map (\<lambda>row. map_option of_int (recency row)) (rfm_agg df) = map Some ?xs"
    using assms by simp
  have "\<not> distinct (bin_edges (map Some ?xs) 5)"
    using False by (intro constant_column_edges[of _ "of_int c"]) auto
  then have "r_scores (rfm_agg df) = Inl ValueError"
    unfolding r_scores_def col by (rule collapse_branch_raises) simp
  then show ?thesis
    unfolding perform_rfm_analysis_def by (intro score_rfm_raises) simp
qed

subsection \<open>The aggregated frame and the shape of a run that returns\<close>

text \<open>
  On a valid table the aggregation gives every customer the recency, the frequency and the
  monetary value of its rows; a run that returns keeps them, has one profile per distinct
  customer id, and its segment counts add up to the number of distinct customer ids.
\<close>

lemma dropna_present:
  "\<forall>x\<in>set xs. f x \<noteq> None \<Longrightarrow> dropna (map f xs) = map (\<lambda>x. the (f x)) xs"
  by (induction xs) auto

lemma rfm_agg_valid:
  assumes v: "valid_table df" and i: "i < length (group_keys df)"
  shows "index_customer_id (rfm_agg df ! i) = group_keys df ! i"
    and "recency (rfm_agg df ! i) =
      Some (days (Max (set (map (\<lambda>t. the (transaction_date t)) df)) -
        Max (set (map (\<lambda>t. the (transaction_date t))
          (filter (\<lambda>t. customer_id t = Some (group_keys df ! i)) df)))))"
    and "\<exists>d. recency (rfm_agg df ! i) = Some d \<and> 0 \<le> d"
    and "frequency (rfm_agg df ! i) =
      length (filter (\<lambda>t. customer_id t = Some (group_keys df ! i)) df)"
    and "1 \<le> frequency (rfm_agg df ! i)"
    and "monetary (rfm_agg df ! i) =
      sum_list (map (\<lambda>t. the (total_amount t))
        (filter (\<lambda>t. customer_id t = Some (group_keys df ! i)) df))"
proof -
  define c where "c = group_keys df ! i"
  define g where "g = filter (\<lambda>t. customer_id t = Some c) df"
  let ?date = "\<lambda>t. the (transaction_date t)"
  have "c \<in> set (group_keys df)" using i by (simp add: c_def)
  then obtain t where t: "t \<in> set df" "customer_id t = Some c"
    by (auto simp: set_group_keys)
  then have gne: "g \<noteq> []" by (auto simp: g_def filter_empty_conv)
  have sub: "set g \<subseteq> set df" by (auto simp: g_def)
  have dall: "dropna (map transaction_date df) = map ?date df"
    using v by (intro dropna_present) (simp add: valid_table_def)
  have dg: "dropna (map transaction_date g) = map ?date g"
    using v sub by (intro dropna_present) (auto simp: valid_table_def)
  have ig: "dropna (map transaction_id g) = map (\<lambda>t. the (transaction_id t)) g"
    using v sub by (intro dropna_present) (auto simp: valid_table_def)
  have ag: "dropna (map total_amount g) = map (\<lambda>t. the (total_amount t)) g"
    using v sub by (intro dropna_present) (auto simp: valid_table_def)
  have dfne: "df \<noteq> []" using v by (simp add: valid_table_def)
  have m1: "series_max (map transaction_date df) = Some (Max (set (map ?date df)))"
    using dfne by (simp add: series_max_def dall)
  have m2: "series_max (map transaction_date g) = Some (Max (set (map ?date g)))"
    using gne by (simp add: series_max_def dg)
  have row: "rfm_agg df ! i = \<lparr> index_customer_id = c,
      recency = Some (days (Max (set (map ?date df)) - Max (set (map ?date g)))),
      frequency = length g, monetary = sum_list (map (\<lambda>t. the (total_amount t)) g) \<rparr>"
    using i by (simp add: rfm_agg_def Let_def c_def[symmetric] g_def[symmetric] m1 m2 ig ag)
  have "Max (set (map ?date g)) \<le> Max (set (map ?date df))"
    using sub gne by (intro Max_mono) auto
  then have nonneg: "0 \<le> days (Max (set (map ?date df)) - Max (set (map ?date g)))"
    by (simp add: days_def ns_per_day_def pos_imp_zdiv_nonneg_iff)
  show "index_customer_id (rfm_agg df ! i) = group_keys df ! i"
    by (simp add: row c_def)
  show "recency (rfm_agg df ! i) =
      Some (days (Max (set (map ?date df)) -
        Max (set (map ?date (filter (\<lambda>t. customer_id t = Some (group_keys df ! i)) df)))))"
    by (simp add: row g_def c_def)
  show "\<exists>d. recency (rfm_agg df ! i) = Some d \<and> 0 \<le> d"
    using nonneg by (simp add: row)
  show "frequency (rfm_agg df ! i) =
      length (filter (\<lambda>t. customer_id t = Some (group_keys df ! i)) df)"
    by (simp add: row g_def c_def)
  show "1 \<le> frequency (rfm_agg df ! i)"
    using gne by (simp add: row Suc_le_eq)
  show "monetary (rfm_agg df ! i) =
      sum_list (map (\<lambda>t. the (total_amount t))
        (filter (\<lambda>t. customer_id t = Some (group_keys df ! i)) df))"
    by (simp add: row g_def c_def)
qed

lemma distinct_group_keys: "distinct (group_keys df)"
  by (simp add: group_keys_def)

lemma segment_customers_cases:
  "segment_customers r f m \<in> set segments"
  by (simp add: segment_customers_def segments_def Let_def)

lemma segment_counts_sum:
  assumes "\<forall>p\<in>set ps. segment p \<in> set segments"
  shows "sum_list (map (segment_count ps) segments) = length ps"
  using assms
proof (induction ps)
  case Nil
  then show ?case by (simp add: segment_count_def segments_def)
next
  case (Cons p ps)
  then have "sum_list (map (segment_count ps) segments) = length ps" by simp
  moreover have "sum_list (map (segment_count (p # ps)) segments) =
      sum_list (map (segment_count ps) segments) + 1"
    using Cons.prems by (auto simp: segment_count_def segments_def)
  ultimately show ?case by simp
qed

lemma run_shape:
  assumes run: "perform_rfm_analysis df = Inr ps"
  shows "map p_customer_id ps = group_keys df"
    and "map p_recency ps = map recency (rfm_agg df)"
    and "map p_frequency ps = map frequency (rfm_agg df)"
    and "map p_monetary ps = map monetary (rfm_agg df)"
    and "length ps = card {c. \<exists>t\<in>set df. customer_id t = Some c}"
    and "sum_list (map (segment_count ps) segments) = card {c. \<exists>t\<in>set df. customer_id t = Some c}"
proof -
  let ?rfm = "rfm_agg df"
  from score_rfm_Inr[OF run[unfolded perform_rfm_analysis_def]] obtain rs fs ms where
    len: "length ps = length ?rfm"
    and lab: "\<forall>i<length ?rfm. label_row (?rfm ! i, rs ! i, fs ! i, ms ! i) = Inr (ps ! i)"
    by blast
  have row: "p_customer_id (ps ! i) = index_customer_id (?rfm ! i) \<and>
      p_recency (ps ! i) = recency (?rfm ! i) \<and> p_frequency (ps ! i) = frequency (?rfm ! i) \<and>
      p_monetary (ps ! i) = monetary (?rfm ! i)" if "i < length ?rfm" for i
  proof -
    from lab that have "label_row (?rfm ! i, rs ! i, fs ! i, ms ! i) = Inr (ps ! i)" by simp
    from label_row_Inr[OF this] show ?thesis by auto
  qed
  have keys: "map index_customer_id ?rfm = group_keys df"
    by (simp add: rfm_agg_def Let_def comp_def)
  show "map p_customer_id ps = group_keys df"
    unfolding keys[symmetric] using len row by (intro nth_equalityI) simp_all
  show "map p_recency ps = map recency ?rfm"
    using len row by (intro nth_equalityI) simp_all
  show "map p_frequency ps = map frequency ?rfm"
    using len row by (intro nth_equalityI) simp_all
  show "map p_monetary ps = map monetary ?rfm"
    using len row by (intro nth_equalityI) simp_all
  show n: "length ps = card {c. \<exists>t\<in>set df. customer_id t = Some c}"
    using len by (simp add: length_rfm_agg length_group_keys)
  have "\<forall>p\<in>set ps. segment p \<in> set segments"
    using score_rfm_profile[OF run[unfolded perform_rfm_analysis_def]] segment_customers_cases
    by metis
  then show "sum_list (map (segment_count ps) segments) = card {c. \<exists>t\<in>set df. customer_id t = Some c}"
    using n by (simp add: segment_counts_sum)
qed

end
